theory Spec2Isabelle
  imports Main "HOL-Library.AList"
begin

section \<open>Clock values and the JavaScript \<open>Map\<close>\<close>

text \<open>
  A \<open>Date\<close> is its \<open>getTime()\<close> value: milliseconds since the epoch. Comparing two
  \<open>Date\<close> objects with \<open><\<close> or \<open>>\<close> compares these numbers. Every operation takes
  the clock reading \<open>now\<close> as an argument; where a function reads the clock more than
  once (\<open>new Date()\<close> and \<open>Date.now()\<close> in one call), the readings are taken to be equal.
\<close>

type_synonym time = int

text \<open>
  A JavaScript \<open>Map\<close> iterates in insertion order, so a registry is an association list:
  \<open>get\<close> is \<open>map_of\<close>, \<open>set\<close> replaces the value of a present key in place and appends
  an absent one, \<open>delete\<close> removes the key.
\<close>

type_synonym 'v jsmap = "(string \<times> 'v) list"

abbreviation Map_get :: "'v jsmap \<Rightarrow> string \<Rightarrow> 'v option" where
  "Map_get m k \<equiv> map_of m k"

abbreviation Map_set :: "string \<Rightarrow> 'v \<Rightarrow> 'v jsmap \<Rightarrow> 'v jsmap" where
  "Map_set k v m \<equiv> AList.update k v m"

abbreviation Map_delete :: "string \<Rightarrow> 'v jsmap \<Rightarrow> 'v jsmap" where
  "Map_delete k m \<equiv> AList.delete k m"

text \<open>
  The outcome of a synchronous file write (\<open>fs.writeFileSync\<close>, \<open>fs.appendFileSync\<close>).
  Both write the file in place: \<open>Written\<close> when the call returned, \<open>Threw left\<close> when
  it threw, \<open>left\<close> being what the file holds after the failed call: the old content
  when the open failed, a truncated, partial or partly extended file when the write
  failed after the open.
\<close>

datatype 'f outcome = Written | Threw 'f

section \<open>tokenService.ts: the credential records\<close>

text \<open>
  The three interfaces \<open>LoginToken\<close>, \<open>PendingRID\<close> and \<open>PendingLogin\<close> share the fields
  \<open>telegramId\<close>, \<open>createdAt\<close> and \<open>expiresAt\<close>; they are the common part of the records.
  An optional field (\<open>claimedAt?\<close>, \<open>clientIp?\<close>, \<open>usedAt?\<close>) is an \<open>option\<close>.
\<close>

record Credential =
  telegramId :: int
  createdAt :: time
  expiresAt :: time

record LoginToken = Credential +
  token :: string
  used :: bool

record PendingRID = Credential +
  rid :: string
  claimed :: bool
  claimedAt :: "time option"
  clientIp :: "string option"

record PendingLogin = Credential +
  claimCode :: string
  claimCodeHash :: string
  pinVerified :: bool
  usedAt :: "time option"

text \<open>
  The private fields of \<open>class TokenService\<close>. \<open>ridStorage\<close> is the content of the file at
  \<open>ridStoragePath\<close> (\<open>.rids.json\<close>): \<open>None\<close> while the file does not exist or does not
  parse, otherwise the array of entries it holds.
\<close>

record TokenService =
  tokens :: "LoginToken jsmap"
  pendingRIDs :: "PendingRID jsmap"
  pendingLogins :: "PendingLogin jsmap"
  ridStorage :: "PendingRID jsmap option"

definition tokenTTL :: int where
  "tokenTTL = 5 * 60 * 1000"

definition ridTTL :: int where
  "ridTTL = 15 * 60 * 1000"

definition claimCodeTTL :: int where
  "claimCodeTTL = 15 * 60 * 1000"

text \<open>
  The \<open>error\<close> strings of the result objects, by kind:
  \<open>NotFound\<close> is 'Token not found', 'RID not found', 'Code not found';
  \<open>AlreadyUsed\<close> is 'Token already used', 'RID already claimed', 'Code already used'
  (and 'already_used' in ridService.ts);
  \<open>Expired\<close> is 'Token expired', 'RID expired', 'Code expired';
  \<open>NotPinVerified\<close> is 'Code not verified';
  \<open>NoPendingRID\<close> is 'No pending RID found' (with or without its suffix);
  \<open>MissingParams\<close> is 'missing_params' and 'missing_user_or_intent' of server.ts;
  \<open>InvalidCredential\<close> is 'Invalid claim code', 'Invalid RID', 'Failed to claim RID', the
  answers of \<open>/handshake/claim\<close> to a verification that carries no error string;
  \<open>NoTelegramId\<close> is 'Could not determine Telegram ID';
  \<open>InternalError\<close> is the 500 answer of a handler whose \<open>try\<close> caught an exception;
  \<open>TooManyRequests retry_after\<close> is the 429 answer 'rate_limited' of a limiter.
  A result \<open>{ valid: true, telegramId }\<close> is \<open>Inr telegramId\<close>, a result
  \<open>{ valid: false, error }\<close> is \<open>Inl error\<close>.
\<close>

datatype error =
  NotFound | AlreadyUsed | Expired | NotPinVerified | NoPendingRID | MissingParams
  | InvalidCredential | NoTelegramId | InternalError | TooManyRequests int

type_synonym 'a result = "error + 'a"

section \<open>tokenService.ts: the operations\<close>

text \<open>
  \<open>saveRIDsToFile\<close> writes the entries of \<open>pendingRIDs\<close> to the file inside a
  \<open>try\<close>; a write that throws is caught and logged. It writes the file in place (no
  temporary file and rename), so after a write that threw the file holds what the
  failure left; \<open>None\<close> stands for a file that is absent or cannot be parsed.
\<close>

type_synonym ridWrite = "PendingRID jsmap option outcome"

definition saveRIDsToFile :: "ridWrite \<Rightarrow> TokenService \<Rightarrow> TokenService" where
  "saveRIDsToFile written st =
     (case written of
        Written \<Rightarrow> st\<lparr>ridStorage := Some (pendingRIDs st)\<rparr>
      | Threw left \<Rightarrow> st\<lparr>ridStorage := left\<rparr>)"

text \<open>
  The secrets come from \<open>crypto.randomBytes\<close> and \<open>Math.random\<close>: the value drawn is an
  argument of the issuing function.
\<close>

definition generateLoginToken ::
  "time \<Rightarrow> string \<Rightarrow> int \<Rightarrow> TokenService \<Rightarrow> string \<times> TokenService" where
  "generateLoginToken now tok tid st =
     (tok, st\<lparr>tokens := Map_set tok
        \<lparr>telegramId = tid, createdAt = now, expiresAt = now + tokenTTL,
         token = tok, used = False\<rparr> (tokens st)\<rparr>)"

definition verifyAndConsumeToken ::
  "time \<Rightarrow> string \<Rightarrow> TokenService \<Rightarrow> int result \<times> TokenService" where
  "verifyAndConsumeToken now tok st =
     (case Map_get (tokens st) tok of
        None \<Rightarrow> (Inl NotFound, st)
      | Some loginToken \<Rightarrow>
          if used loginToken then (Inl AlreadyUsed, st)
          else if now > expiresAt loginToken
            then (Inl Expired, st\<lparr>tokens := Map_delete tok (tokens st)\<rparr>)
          else (Inr (telegramId loginToken),
                st\<lparr>tokens := Map_set tok (loginToken\<lparr>used := True\<rparr>) (tokens st)\<rparr>))"

definition generatePendingRID ::
  "time \<Rightarrow> ridWrite \<Rightarrow> string \<Rightarrow> int \<Rightarrow> string option \<Rightarrow> TokenService
    \<Rightarrow> string \<times> TokenService" where
  "generatePendingRID now written r tid ip st =
     (r, saveRIDsToFile written (st\<lparr>pendingRIDs := Map_set r
        \<lparr>telegramId = tid, createdAt = now, expiresAt = now + ridTTL,
         rid = r, claimed = False, claimedAt = None, clientIp = ip\<rparr> (pendingRIDs st)\<rparr>))"

definition claimPendingRID ::
  "time \<Rightarrow> ridWrite \<Rightarrow> string \<Rightarrow> TokenService \<Rightarrow> int result \<times> TokenService" where
  "claimPendingRID now written r st =
     (case Map_get (pendingRIDs st) r of
        None \<Rightarrow> (Inl NotFound, st)
      | Some pendingRID \<Rightarrow>
          if claimed pendingRID then (Inl AlreadyUsed, st)
          else if now > expiresAt pendingRID
            then (Inl Expired,
                  saveRIDsToFile written (st\<lparr>pendingRIDs := Map_delete r (pendingRIDs st)\<rparr>))
          else (Inr (telegramId pendingRID),
                saveRIDsToFile written (st\<lparr>pendingRIDs := Map_set r
                  (pendingRID\<lparr>claimed := True, claimedAt := Some now\<rparr>) (pendingRIDs st)\<rparr>)))"

text \<open>
  \<open>generateClaimCode\<close> draws the code and stores the record under its SHA-256 digest;
  both the code drawn and its digest are arguments.
\<close>

definition generateClaimCode ::
  "time \<Rightarrow> string \<Rightarrow> string \<Rightarrow> int \<Rightarrow> TokenService \<Rightarrow> (string \<times> string) \<times> TokenService" where
  "generateClaimCode now code h tid st =
     ((code, h), st\<lparr>pendingLogins := Map_set h
        \<lparr>telegramId = tid, createdAt = now, expiresAt = now + claimCodeTTL,
         claimCode = code, claimCodeHash = h, pinVerified = False, usedAt = None\<rparr>
        (pendingLogins st)\<rparr>)"

definition verifyPin ::
  "time \<Rightarrow> string \<Rightarrow> TokenService \<Rightarrow> string result \<times> TokenService" where
  "verifyPin now h st =
     (case Map_get (pendingLogins st) h of
        None \<Rightarrow> (Inl NotFound, st)
      | Some pendingLogin \<Rightarrow>
          if now > expiresAt pendingLogin
            then (Inl Expired, st\<lparr>pendingLogins := Map_delete h (pendingLogins st)\<rparr>)
          else (Inr (claimCode pendingLogin),
                st\<lparr>pendingLogins := Map_set h (pendingLogin\<lparr>pinVerified := True\<rparr>)
                  (pendingLogins st)\<rparr>))"

text \<open>\<open>if (pendingLogin.usedAt)\<close>: a \<open>Date\<close> object is truthy, so the test is "is set".\<close>

definition claimCode_op ::
  "time \<Rightarrow> string \<Rightarrow> TokenService \<Rightarrow> int result \<times> TokenService" where
  "claimCode_op now h st =
     (case Map_get (pendingLogins st) h of
        None \<Rightarrow> (Inl NotFound, st)
      | Some pendingLogin \<Rightarrow>
          if usedAt pendingLogin \<noteq> None then (Inl AlreadyUsed, st)
          else if now > expiresAt pendingLogin
            then (Inl Expired, st\<lparr>pendingLogins := Map_delete h (pendingLogins st)\<rparr>)
          else if \<not> pinVerified pendingLogin then (Inl NotPinVerified, st)
          else (Inr (telegramId pendingLogin),
                st\<lparr>pendingLogins := Map_set h (pendingLogin\<lparr>usedAt := Some now\<rparr>)
                  (pendingLogins st)\<rparr>))"

subsection \<open>The two definitions of \<open>getLatestPendingRID\<close>\<close>

text \<open>
  Both loops keep the candidate with the newest \<open>createdAt\<close>:
  \<open>if (!latest || rid.createdAt > latest.createdAt) latest = rid\<close>.
\<close>

definition pickLatest :: "PendingRID option \<Rightarrow> PendingRID \<Rightarrow> PendingRID option" where
  "pickLatest latest r =
     (case latest of
        None \<Rightarrow> Some r
      | Some l \<Rightarrow> if createdAt r > createdAt l then Some r else Some l)"

text \<open>
  The first definition in the class body, with the parameter \<open>telegramId\<close>; it returns
  \<open>{ rid }\<close>, an object with no \<open>telegramId\<close>. A result is the pair of the \<open>rid\<close> and the
  \<open>telegramId\<close> property of the returned object (\<open>None\<close> when it has none).
\<close>

definition getLatestPendingRID_first ::
  "time \<Rightarrow> int \<Rightarrow> TokenService \<Rightarrow> (string \<times> int option) result" where
  "getLatestPendingRID_first now tid st =
     (case fold (\<lambda>r latest.
                   if telegramId r = tid \<and> \<not> claimed r \<and> now < expiresAt r
                   then pickLatest latest r else latest)
                (map snd (pendingRIDs st)) None of
        None \<Rightarrow> Inl NoPendingRID
      | Some latest \<Rightarrow> Inr (rid latest, None))"

text \<open>
  The second definition in the class body, without parameters: any subject, created
  within the last five minutes. It returns \<open>{ rid, telegramId }\<close>.
\<close>

definition getLatestPendingRID_second ::
  "time \<Rightarrow> TokenService \<Rightarrow> (string \<times> int option) result" where
  "getLatestPendingRID_second now st =
     (let fiveMinutesAgo = now - 5 * 60 * 1000 in
      case fold (\<lambda>pending latest.
                   if \<not> claimed pending \<and> createdAt pending > fiveMinutesAgo
                      \<and> now < expiresAt pending
                   then pickLatest latest pending else latest)
                (map snd (pendingRIDs st)) None of
        None \<Rightarrow> Inl NoPendingRID
      | Some latest \<Rightarrow> Inr (rid latest, Some (telegramId latest)))"

text \<open>
  A class body that defines a method twice under one name assigns the property of the
  prototype twice, in source order, so the prototype holds the second definition. A call
  \<open>tokenService.getLatestPendingRID(telegramId)\<close> (mode 2 of \<open>/handshake/claim\<close>) and a
  call \<open>tokenService.getLatestPendingRID()\<close> (mode 3) both run the second body; the
  argument of the first call, \<open>arg\<close> here, is bound to no parameter.
\<close>

definition getLatestPendingRID ::
  "time \<Rightarrow> int option \<Rightarrow> TokenService \<Rightarrow> (string \<times> int option) result" where
  "getLatestPendingRID now arg st = getLatestPendingRID_second now st"

subsection \<open>The periodic sweep of \<open>startCleanupInterval\<close>\<close>

text \<open>
  Each of the three loops walks the entries of one registry and deletes the keys whose
  value meets the loop's condition, counting them. The iterator of a \<open>Map\<close> is live:
  it visits the keys in insertion order, yields the value the key has when it is
  visited, and passes over a key that is no longer in the map.
\<close>

definition sweep :: "('v \<Rightarrow> bool) \<Rightarrow> 'v jsmap \<Rightarrow> 'v jsmap \<times> nat" where
  "sweep dead m =
     fold (\<lambda>k (m', cleaned).
             case Map_get m' k of
               None \<Rightarrow> (m', cleaned)
             | Some v \<Rightarrow> if dead v then (Map_delete k m', cleaned + 1) else (m', cleaned))
          (map fst m) (m, 0)"

definition cleanupTick :: "time \<Rightarrow> ridWrite \<Rightarrow> TokenService \<Rightarrow> TokenService" where
  "cleanupTick now written st =
     (let (tokens', c1) = sweep (\<lambda>loginToken. now > expiresAt loginToken \<and> used loginToken)
                            (tokens st);
          (rids', c2) = sweep (\<lambda>pendingRID. now > expiresAt pendingRID \<and> claimed pendingRID)
                          (pendingRIDs st);
          (logins', c3) = sweep (\<lambda>pendingLogin. now > expiresAt pendingLogin)
                            (pendingLogins st);
          st' = st\<lparr>tokens := tokens', pendingRIDs := rids', pendingLogins := logins'\<rparr>
      in if c1 + c2 + c3 > 0 then saveRIDsToFile written st' else st')"


subsection \<open>Credential kinds and sequences of operations\<close>

text \<open>
  The three one-time credentials of \<open>TokenService\<close> and the call that consumes each:
  \<open>verifyAndConsumeToken\<close>, \<open>claimPendingRID\<close> and \<open>claimCode\<close>.
\<close>

datatype kind = LoginTokenKind | RidKind | ClaimCodeKind

fun consume ::
  "kind \<Rightarrow> time \<Rightarrow> ridWrite \<Rightarrow> string \<Rightarrow> TokenService \<Rightarrow> int result \<times> TokenService" where
  "consume LoginTokenKind now written s st = verifyAndConsumeToken now s st"
| "consume RidKind now written s st = claimPendingRID now written s st"
| "consume ClaimCodeKind now written s st = claimCode_op now s st"

text \<open>
  What a registry holds under a secret, read the same way for the three kinds: the
  \<open>expiresAt\<close> of the record and whether it is consumed (\<open>used\<close>, \<open>claimed\<close>, or
  \<open>usedAt\<close> set); \<open>None\<close> when the registry has no record under the secret.
\<close>

fun entry :: "kind \<Rightarrow> string \<Rightarrow> TokenService \<Rightarrow> (time \<times> bool) option" where
  "entry LoginTokenKind s st =
     map_option (\<lambda>c. (expiresAt c, used c)) (Map_get (tokens st) s)"
| "entry RidKind s st =
     map_option (\<lambda>c. (expiresAt c, claimed c)) (Map_get (pendingRIDs st) s)"
| "entry ClaimCodeKind s st =
     map_option (\<lambda>c. (expiresAt c, usedAt c \<noteq> None)) (Map_get (pendingLogins st) s)"

text \<open>
  A call of a public method of the service, or one tick of its cleanup timer, with the
  clock reading, the outcome of the file write and the random draw of the call.
\<close>

datatype op =
    GenerateLoginToken time string int
  | VerifyAndConsumeToken time string
  | GeneratePendingRID time ridWrite string int "string option"
  | ClaimPendingRID time ridWrite string
  | GenerateClaimCode time string string int
  | VerifyPin time string
  | ClaimCode time string
  | CleanupTick time ridWrite

fun exec :: "op \<Rightarrow> TokenService \<Rightarrow> TokenService" where
  "exec (GenerateLoginToken now tok tid) st = snd (generateLoginToken now tok tid st)"
| "exec (VerifyAndConsumeToken now tok) st = snd (verifyAndConsumeToken now tok st)"
| "exec (GeneratePendingRID now written r tid ip) st =
     snd (generatePendingRID now written r tid ip st)"
| "exec (ClaimPendingRID now written r) st = snd (claimPendingRID now written r st)"
| "exec (GenerateClaimCode now code h tid) st = snd (generateClaimCode now code h tid st)"
| "exec (VerifyPin now h) st = snd (verifyPin now h st)"
| "exec (ClaimCode now h) st = snd (claimCode_op now h st)"
| "exec (CleanupTick now written) st = cleanupTick now written st"

definition run :: "op list \<Rightarrow> TokenService \<Rightarrow> TokenService" where
  "run ops st = fold exec ops st"

text \<open>\<open>issues k s op\<close>: the call issues a credential of kind \<open>k\<close> under the secret \<open>s\<close>.\<close>

fun issues :: "kind \<Rightarrow> string \<Rightarrow> op \<Rightarrow> bool" where
  "issues k s (GenerateLoginToken now tok tid) = (k = LoginTokenKind \<and> tok = s)"
| "issues k s (GeneratePendingRID now written r tid ip) = (k = RidKind \<and> r = s)"
| "issues k s (GenerateClaimCode now code h tid) = (k = ClaimCodeKind \<and> h = s)"
| "issues k s _ = False"

text \<open>
  \<open>evicting k s op\<close>: the call can delete a consumed record of kind \<open>k\<close> stored under \<open>s\<close>:
  a cleanup tick, and \<open>verifyPin\<close> on the same hash (it tests the expiry before anything
  else and does not look at \<open>usedAt\<close>).
\<close>

fun evicting :: "kind \<Rightarrow> string \<Rightarrow> op \<Rightarrow> bool" where
  "evicting k s (CleanupTick now written) = True"
| "evicting k s (VerifyPin now h) = (k = ClaimCodeKind \<and> h = s)"
| "evicting k s _ = False"

text \<open>\<open>verifies h op\<close>: the call is \<open>verifyPin\<close> on the hash \<open>h\<close>.\<close>

fun verifies :: "string \<Rightarrow> op \<Rightarrow> bool" where
  "verifies h (VerifyPin now h') = (h' = h)"
| "verifies h _ = False"

text \<open>No record under the hash has \<open>pinVerified\<close> set.\<close>

definition unverified :: "string \<Rightarrow> TokenService \<Rightarrow> bool" where
  "unverified h st =
     (case Map_get (pendingLogins st) h of None \<Rightarrow> True | Some c \<Rightarrow> \<not> pinVerified c)"

text \<open>Any number of cleanup ticks, each with its clock reading and write outcome.\<close>

definition ticks :: "(time \<times> ridWrite) list \<Rightarrow> TokenService \<Rightarrow> TokenService" where
  "ticks ts st = fold (\<lambda>(now, written). cleanupTick now written) ts st"

definition emptyService :: TokenService where
  "emptyService = \<lparr>tokens = [], pendingRIDs = [], pendingLogins = [], ridStorage = None\<rparr>"

subsection \<open>The constructor\<close>

text \<open>
  A new process builds the service anew: the three registries are empty maps, and
  \<open>loadRIDsFromFile\<close> sets every entry of the file, in order, in \<open>pendingRIDs\<close>; a file
  that is absent or does not parse loads nothing. The JSON round trip gives the records
  back as they were written (the reviver turns the three dates back into \<open>Date\<close>s).
\<close>

definition loadRIDsFromFile :: "PendingRID jsmap option \<Rightarrow> PendingRID jsmap" where
  "loadRIDsFromFile file =
     (case file of
        None \<Rightarrow> []
      | Some entries \<Rightarrow> fold (\<lambda>(r, pendingRID) m. Map_set r pendingRID m) entries [])"

definition restart :: "TokenService \<Rightarrow> TokenService" where
  "restart st =
     \<lparr>tokens = [], pendingRIDs = loadRIDsFromFile (ridStorage st), pendingLogins = [],
      ridStorage = ridStorage st\<rparr>"

section \<open>ridService.ts\<close>

text \<open>
  \<open>RequestId\<close> has the three common fields too; its \<open>rid\<close>, \<open>used\<close> and \<open>context\<close>
  fields are \<open>req_rid\<close>, \<open>req_used\<close> and \<open>req_context\<close> here. \<open>class RidService\<close> has one registry and no file.
\<close>

record RequestId = Credential +
  req_rid :: string
  req_used :: bool
  intent :: string
  req_context :: "(string \<times> string) list option"

record RidService =
  rids :: "RequestId jsmap"

definition generateRid ::
  "time \<Rightarrow> string \<Rightarrow> int \<Rightarrow> string \<Rightarrow> (string \<times> string) list option \<Rightarrow> RidService
    \<Rightarrow> string \<times> RidService" where
  "generateRid now r tid i c st =
     (r, st\<lparr>rids := Map_set r
        \<lparr>telegramId = tid, createdAt = now, expiresAt = now + ridTTL,
         req_rid = r, req_used = False, intent = i, req_context = c\<rparr> (rids st)\<rparr>)"

definition verifyAndConsumeRid ::
  "time \<Rightarrow> string \<Rightarrow> RidService
    \<Rightarrow> (int \<times> string \<times> (string \<times> string) list option) result \<times> RidService" where
  "verifyAndConsumeRid now r st =
     (case Map_get (rids st) r of
        None \<Rightarrow> (Inl NotFound, st)
      | Some requestId \<Rightarrow>
          if req_used requestId then (Inl AlreadyUsed, st)
          else if now > expiresAt requestId
            then (Inl Expired, st\<lparr>rids := Map_delete r (rids st)\<rparr>)
          else (Inr (telegramId requestId, intent requestId, req_context requestId),
                st\<lparr>rids := Map_set r (requestId\<lparr>req_used := True\<rparr>) (rids st)\<rparr>))"

definition RidService_cleanupTick :: "time \<Rightarrow> RidService \<Rightarrow> RidService" where
  "RidService_cleanupTick now st =
     st\<lparr>rids := fst (sweep (\<lambda>requestId. now > expiresAt requestId \<and> req_used requestId)
                       (rids st))\<rparr>"


section \<open>rateLimit.ts\<close>

record RateLimitEntry =
  count :: int
  resetAt :: time

record RateLimitOptions =
  windowMs :: int
  maxRequests :: int

text \<open>
  What the middleware does with a request: it calls \<open>next()\<close>, or it answers 429 with
  \<open>{ ok: false, error: 'rate_limited', retry_after }\<close>.
\<close>

datatype response = Next | RateLimited int

text \<open>\<open>Math.ceil(ms / 1000)\<close> on an integer number of milliseconds.\<close>

definition ceilSeconds :: "int \<Rightarrow> int" where
  "ceilSeconds ms = - ((- ms) div 1000)"

text \<open>
  \<open>key\<close> is what \<open>keyGenerator(req)\<close>, or \<open>req.ip || 'unknown'\<close> without a generator,
  gives for the request. The count is incremented before it is compared.
\<close>

definition middleware ::
  "RateLimitOptions \<Rightarrow> time \<Rightarrow> string \<Rightarrow> RateLimitEntry jsmap
    \<Rightarrow> response \<times> RateLimitEntry jsmap" where
  "middleware options now key store =
     (case Map_get store key of
        None \<Rightarrow>
          (Next, Map_set key \<lparr>count = 1, resetAt = now + windowMs options\<rparr> store)
      | Some entry' \<Rightarrow>
          if now \<ge> resetAt entry'
          then (Next, Map_set key \<lparr>count = 1, resetAt = now + windowMs options\<rparr> store)
          else (let counted = entry'\<lparr>count := count entry' + 1\<rparr>;
                    store' = Map_set key counted store
                in if count counted > maxRequests options
                   then (RateLimited (ceilSeconds (resetAt counted - now)), store')
                   else (Next, store')))"

definition RateLimiter_cleanup :: "time \<Rightarrow> RateLimitEntry jsmap \<Rightarrow> RateLimitEntry jsmap" where
  "RateLimiter_cleanup now store = fst (sweep (\<lambda>entry'. now \<ge> resetAt entry') store)"

text \<open>What reaches one limiter: a request with its key, or a run of its cleanup timer.\<close>

datatype event = Request time string | CleanupRun time

fun eventTime :: "event \<Rightarrow> time" where
  "eventTime (Request now key) = now"
| "eventTime (CleanupRun now) = now"

fun isRequest :: "string \<Rightarrow> event \<Rightarrow> bool" where
  "isRequest k (Request now key) = (key = k)"
| "isRequest k (CleanupRun now) = False"

text \<open>
  \<open>serve\<close> feeds the events to the limiter in order and lists what each one got:
  the middleware's response for a request, \<open>None\<close> for a cleanup run.
\<close>

fun serve ::
  "RateLimitOptions \<Rightarrow> event list \<Rightarrow> RateLimitEntry jsmap
    \<Rightarrow> response option list \<times> RateLimitEntry jsmap" where
  "serve options [] store = ([], store)"
| "serve options (Request now key # evs) store =
     (let (r, store') = middleware options now key store;
          (rs, store'') = serve options evs store'
      in (Some r # rs, store''))"
| "serve options (CleanupRun now # evs) store =
     (let (rs, store'') = serve options evs (RateLimiter_cleanup now store)
      in (None # rs, store''))"

text \<open>
  \<open>rank k evs i\<close>: how many requests with the key \<open>k\<close> the events up to and including
  the \<open>i\<close>-th hold; for a request with key \<open>k\<close> at position \<open>i\<close>, its number among them.
\<close>

definition rank :: "string \<Rightarrow> event list \<Rightarrow> nat \<Rightarrow> int" where
  "rank k evs i = int (length (filter (isRequest k) (take (Suc i) evs)))"

section \<open>server.ts: the operations that create and consume a RID\<close>

text \<open>
  The server holds one \<open>TokenService\<close>, one \<open>RidService\<close> and the store of
  \<open>sessionRateLimiter\<close>, the limiter in front of \<open>POST /miniapp/session/request-id\<close>. The
  only file either service writes RIDs to is \<open>ridStorage\<close> of the token service. The
  endpoints are modelled by their effect on these three (their audit-log calls touch
  none of them).
\<close>

record Server =
  tokenService :: TokenService
  ridService :: RidService
  sessionLimiter :: "RateLimitEntry jsmap"

definition snapshot :: "Server \<Rightarrow> PendingRID jsmap option" where
  "snapshot srv = ridStorage (tokenService srv)"

text \<open>\<open>createIpRateLimiter\<close>: the key is \<open>req.ip || 'unknown'\<close>.\<close>

definition ipKey :: "string option \<Rightarrow> string" where
  "ipKey reqIp = (case reqIp of None \<Rightarrow> ''unknown'' | Some a \<Rightarrow> if a = [] then ''unknown'' else a)"

definition sessionOptions :: RateLimitOptions where
  "sessionOptions = \<lparr>windowMs = 60 * 1000, maxRequests = 10\<rparr>"

text \<open>
  \<open>POST /miniapp/session/request-id\<close>: the limiter runs first and answers 429 itself
  when it denies; then \<open>!user.tg_id\<close> holds for a missing id and for 0, \<open>!intent\<close> for a
  missing and for an empty string.
\<close>

definition issueRequestId ::
  "time \<Rightarrow> string option \<Rightarrow> string \<Rightarrow> int option \<Rightarrow> string option
    \<Rightarrow> (string \<times> string) list option \<Rightarrow> Server \<Rightarrow> string result \<times> Server" where
  "issueRequestId now reqIp r tg i c srv =
     (case middleware sessionOptions now (ipKey reqIp) (sessionLimiter srv) of
        (RateLimited retryAfter, store') \<Rightarrow>
          (Inl (TooManyRequests retryAfter), srv\<lparr>sessionLimiter := store'\<rparr>)
      | (Next, store') \<Rightarrow>
          (let srv' = srv\<lparr>sessionLimiter := store'\<rparr> in
           case (tg, i) of
             (Some tid, Some intent') \<Rightarrow>
               if tid = 0 \<or> intent' = [] then (Inl MissingParams, srv')
               else (let (r', rs) = generateRid now r tid intent' c (ridService srv')
                     in (Inr r', srv'\<lparr>ridService := rs\<rparr>))
           | _ \<Rightarrow> (Inl MissingParams, srv')))"

text \<open>
  \<open>POST /login/handshake/consume\<close>, registered without a limiter; the session it
  answers with is built from the id.
\<close>

definition consumeRequestId ::
  "time \<Rightarrow> string option \<Rightarrow> string option \<Rightarrow> Server \<Rightarrow> int result \<times> Server" where
  "consumeRequestId now r device srv =
     (case (r, device) of
        (Some r', Some device') \<Rightarrow>
          if r' = [] \<or> device' = [] then (Inl MissingParams, srv)
          else (case verifyAndConsumeRid now r' (ridService srv) of
                  (Inl e, rs) \<Rightarrow> (Inl e, srv\<lparr>ridService := rs\<rparr>)
                | (Inr (tid, _), rs) \<Rightarrow> (Inr tid, srv\<lparr>ridService := rs\<rparr>))
      | _ \<Rightarrow> (Inl MissingParams, srv))"

text \<open>
  \<open>POST /handshake/claim\<close>, registered without a limiter, up to the subject it hands to
  the identity backend. The body fields \<open>claimCode\<close>, \<open>rid\<close> and \<open>telegramId\<close> are tested
  for truthiness in this order (an empty string and 0 are falsy). server.ts does not
  import \<open>crypto\<close>, so in the claim-code mode \<open>crypto.createHash\<close> throws inside the
  handler's \<open>try\<close>: the \<open>catch\<close> answers 500 and \<open>tokenService.claimCode\<close> is not called.
  In the two lookup modes the subject is the \<open>telegramId\<close> property of the lookup
  result, and the RID found is claimed. The handler answers 400 when no subject came
  out.
\<close>

definition truthyString :: "string option \<Rightarrow> string option" where
  "truthyString x = (case x of None \<Rightarrow> None | Some s \<Rightarrow> if s = [] then None else Some s)"

definition truthyNumber :: "int option \<Rightarrow> int option" where
  "truthyNumber x = (case x of None \<Rightarrow> None | Some n \<Rightarrow> if n = 0 then None else Some n)"

text \<open>
  \<open>if (!verification.valid || !verification.telegramId)\<close> answers 401; otherwise the
  subject is \<open>target\<close>: the \<open>telegramId\<close> of the verification in the direct RID mode,
  the \<open>telegramId\<close> of the lookup result in the two lookup modes.
\<close>

definition claimed_subject ::
  "int result \<times> TokenService \<Rightarrow> (int \<Rightarrow> int option) \<Rightarrow> int option result \<times> TokenService" where
  "claimed_subject verification target =
     (case verification of
        (Inl e, st') \<Rightarrow> (Inl e, st')
      | (Inr tid, st') \<Rightarrow>
          if tid = 0 then (Inl InvalidCredential, st') else (Inr (target tid), st'))"

definition lookup_and_claim ::
  "time \<Rightarrow> ridWrite \<Rightarrow> (string \<times> int option) result \<Rightarrow> TokenService
    \<Rightarrow> int option result \<times> TokenService" where
  "lookup_and_claim now written pendingResult st =
     (case pendingResult of
        Inl e \<Rightarrow> (Inl e, st)
      | Inr (claimRid, targetTelegramId) \<Rightarrow>
          if claimRid = [] then (Inl NoPendingRID, st)
          else claimed_subject (claimPendingRID now written claimRid st)
                 (\<lambda>tid. targetTelegramId))"

definition handshakeClaim ::
  "time \<Rightarrow> ridWrite \<Rightarrow> string option \<Rightarrow> string option \<Rightarrow> int option
    \<Rightarrow> TokenService \<Rightarrow> int result \<times> TokenService" where
  "handshakeClaim now written claimCode' rid' telegramId' st =
     (let (target, st') =
        (case truthyString claimCode' of
           Some code \<Rightarrow> (Inl InternalError, st)
         | None \<Rightarrow>
        (case truthyString rid' of
           Some r \<Rightarrow> claimed_subject (claimPendingRID now written r st) Some
         | None \<Rightarrow>
        (case truthyNumber telegramId' of
           Some tid \<Rightarrow>
             lookup_and_claim now written (getLatestPendingRID now (Some tid) st) st
         | None \<Rightarrow>
             lookup_and_claim now written (getLatestPendingRID now None st) st)))
      in case target of
           Inl e \<Rightarrow> (Inl e, st')
         | Inr targetTelegramId \<Rightarrow>
             (case truthyNumber targetTelegramId of
                None \<Rightarrow> (Inl NoTelegramId, st')
              | Some t \<Rightarrow> (Inr t, st')))"

definition emptyServer :: Server where
  "emptyServer =
     \<lparr>tokenService = emptyService, ridService = \<lparr>rids = []\<rparr>, sessionLimiter = []\<rparr>"

section \<open>auditLog.ts\<close>

datatype status = Success | Failed

text \<open>
  The \<open>timestamp\<close> is the clock reading behind \<open>toISOString()\<close>. The fields \<open>error\<close> and
  \<open>context\<close> of the interface are \<open>error_text\<close> and \<open>audit_context\<close> here.
\<close>

record AuditEntry =
  timestamp :: time
  action :: string
  tg_id :: "int option"
  app_user_id :: "string option"
  status :: status
  error_text :: "string option"
  ip :: "string option"
  user_agent :: "string option"
  audit_context :: "(string \<times> string) list option"

text \<open>\<open>logFile\<close> is the content of the \<open>.jsonl\<close> file: one entry per line.\<close>

record AuditLog =
  inMemoryLogs :: "AuditEntry list"
  logFile :: "AuditEntry list"

definition maxInMemory :: nat where
  "maxInMemory = 1000"

text \<open>
  \<open>flush\<close> appends the buffer to the file and empties it inside a \<open>try\<close>; when
  \<open>fs.appendFileSync\<close> throws, the \<open>catch\<close> logs 'Failed to flush logs', the buffer
  stays, and the file holds what the failed append left.
\<close>

type_synonym logWrite = "AuditEntry list outcome"

definition flush :: "logWrite \<Rightarrow> AuditLog \<Rightarrow> AuditLog" where
  "flush appended st =
     (if inMemoryLogs st = [] then st
      else case appended of
             Written \<Rightarrow> st\<lparr>logFile := logFile st @ inMemoryLogs st, inMemoryLogs := []\<rparr>
           | Threw left \<Rightarrow> st\<lparr>logFile := left\<rparr>)"

definition securityCritical :: "string list" where
  "securityCritical = [''auth_verified'', ''auth_failed'', ''invalid_signature'', ''rate_limited'']"

text \<open>\<open>log\<close> stamps the entry, pushes it, shifts the oldest one out past the ceiling.\<close>

definition log :: "time \<Rightarrow> logWrite \<Rightarrow> AuditEntry \<Rightarrow> AuditLog \<Rightarrow> AuditLog" where
  "log now appended entry' st =
     (let auditEntry = entry'\<lparr>timestamp := now\<rparr>;
          pushed = inMemoryLogs st @ [auditEntry];
          kept = (if length pushed > maxInMemory then tl pushed else pushed);
          st' = st\<lparr>inMemoryLogs := kept\<rparr>
      in if action entry' \<in> set securityCritical then flush appended st' else st')"

text \<open>The callback of \<open>startPeriodicFlush\<close>.\<close>

definition periodicFlush :: "logWrite \<Rightarrow> AuditLog \<Rightarrow> AuditLog" where
  "periodicFlush appended st =
     (if length (inMemoryLogs st) > 0 then flush appended st else st)"

text \<open>
  \<open>xs.slice(start)\<close>: a negative \<open>start\<close> counts from the end and stops at the first
  element; \<open>slice(-limit)\<close> with \<open>limit = 0\<close> is \<open>slice(0)\<close>, the whole array.
\<close>

definition slice :: "int \<Rightarrow> 'a list \<Rightarrow> 'a list" where
  "slice start xs =
     (if start < 0 then drop (nat (int (length xs) + start)) xs else drop (nat start) xs)"

definition getRecent :: "int \<Rightarrow> AuditLog \<Rightarrow> AuditEntry list" where
  "getRecent limit st = slice (- limit) (inMemoryLogs st)"

definition getForUser :: "int \<Rightarrow> int \<Rightarrow> AuditLog \<Rightarrow> AuditEntry list" where
  "getForUser tid limit st =
     slice (- limit) (filter (\<lambda>e. tg_id e = Some tid) (inMemoryLogs st))"


section \<open>Sample states\<close>

text \<open>One login token for subject 42, one RID for subject 9, one claim code for subject 7.\<close>

definition oneToken :: TokenService where
  "oneToken = snd (generateLoginToken 0 ''tok'' 42 emptyService)"

definition oneRid :: TokenService where
  "oneRid = snd (generatePendingRID 0 Written ''rid9'' 9 None emptyService)"

definition oneCode :: TokenService where
  "oneCode = snd (generateClaimCode 0 ''AB7K-39'' ''hash'' 7 emptyService)"

text \<open>The three of them issued at time 0 and consumed within their lifetime.\<close>

definition allConsumed :: TokenService where
  "allConsumed = run
     [GenerateLoginToken 0 ''tok'' 42, VerifyAndConsumeToken 1000 ''tok'',
      GeneratePendingRID 0 Written ''rid9'' 9 None, ClaimPendingRID 1000 Written ''rid9'',
      GenerateClaimCode 0 ''AB7K-39'' ''hash'' 7, VerifyPin 1000 ''hash'',
      ClaimCode 2000 ''hash''] emptyService"

text \<open>A limiter of two requests a minute, and one configured with no request at all.\<close>

definition zeroOptions :: RateLimitOptions where
  "zeroOptions = \<lparr>windowMs = 60 * 1000, maxRequests = 0\<rparr>"

definition strictOptions :: RateLimitOptions where
  "strictOptions = \<lparr>windowMs = 60 * 1000, maxRequests = 2\<rparr>"

text \<open>
  An audit entry for user 7 with a given action, and the log after one entry that
  triggers no flush.
\<close>

definition sampleEntry :: "string \<Rightarrow> AuditEntry" where
  "sampleEntry a = \<lparr>timestamp = 0, action = a, tg_id = Some 7, app_user_id = None,
     status = Failed, error_text = None, ip = None, user_agent = None,
     audit_context = None\<rparr>"

definition loggedOnce :: AuditLog where
  "loggedOnce = log 1000 Written (sampleEntry ''request_id_generated'')
                  \<lparr>inMemoryLogs = [], logFile = []\<rparr>"

section \<open>Properties of the credential store\<close>

subsection \<open>The cleanup tick, read through \<open>Map.get\<close>\<close>

lemma saveRIDsToFile_registries:
  "tokens (saveRIDsToFile w st) = tokens st"
  "pendingRIDs (saveRIDsToFile w st) = pendingRIDs st"
  "pendingLogins (saveRIDsToFile w st) = pendingLogins st"
  by (simp_all add: saveRIDsToFile_def split: outcome.splits)

lemma saveRIDsToFile_file:
  "ridStorage (saveRIDsToFile Written st) = Some (pendingRIDs st)"
  "ridStorage (saveRIDsToFile (Threw left) st) = left"
  by (simp_all add: saveRIDsToFile_def)

lemmas op_defs = generateLoginToken_def verifyAndConsumeToken_def generatePendingRID_def
  claimPendingRID_def generateClaimCode_def verifyPin_def claimCode_op_def
  saveRIDsToFile_registries saveRIDsToFile_file

lemmas sample_defs = oneToken_def oneRid_def oneCode_def allConsumed_def emptyService_def
  run_def ticks_def cleanupTick_def sweep_def tokenTTL_def ridTTL_def claimCodeTTL_def

lemma sweep_fold_get:
  "Map_get (fst (fold (\<lambda>k (m', cleaned).
             case Map_get m' k of
               None \<Rightarrow> (m', cleaned)
             | Some v \<Rightarrow> if dead v then (Map_delete k m', cleaned + 1) else (m', cleaned))
          ks (m, c))) k =
   (case Map_get m k of None \<Rightarrow> None
    | Some v \<Rightarrow> if dead v \<and> k \<in> set ks then None else Some v)"
proof (induction ks arbitrary: m c)
  case Nil
  then show ?case by (simp split: option.splits)
next
  case (Cons a ks)
  show ?case
    by (cases "Map_get m a") (auto simp: Cons.IH delete_conv' split: option.splits)
qed

lemma sweep_get:
  "Map_get (fst (sweep dead m)) k =
   (case Map_get m k of None \<Rightarrow> None | Some v \<Rightarrow> if dead v then None else Some v)"
  unfolding sweep_def sweep_fold_get
  by (auto split: option.splits dest: map_of_SomeD intro: rev_image_eqI)

lemma cleanupTick_tokens:
  "tokens (cleanupTick now w st) =
   fst (sweep (\<lambda>c. now > expiresAt c \<and> used c) (tokens st))"
  by (simp add: cleanupTick_def saveRIDsToFile_registries Let_def split: prod.splits)

lemma cleanupTick_pendingRIDs:
  "pendingRIDs (cleanupTick now w st) =
   fst (sweep (\<lambda>c. now > expiresAt c \<and> claimed c) (pendingRIDs st))"
  by (simp add: cleanupTick_def saveRIDsToFile_registries Let_def split: prod.splits)

lemma cleanupTick_pendingLogins:
  "pendingLogins (cleanupTick now w st) =
   fst (sweep (\<lambda>c. now > expiresAt c) (pendingLogins st))"
  by (simp add: cleanupTick_def saveRIDsToFile_registries Let_def split: prod.splits)

lemma entry_cleanupTick:
  "entry k s (cleanupTick now w st) =
   (case entry k s st of None \<Rightarrow> None
    | Some (e, u) \<Rightarrow> if now > e \<and> (u \<or> k = ClaimCodeKind) then None else Some (e, u))"
  by (cases k)
     (auto simp: cleanupTick_tokens cleanupTick_pendingRIDs cleanupTick_pendingLogins sweep_get
           split: option.splits)

subsection \<open>One operation, seen from one secret\<close>

lemma entry_exec_absent:
  "\<not> issues k s op \<Longrightarrow> entry k s st = None \<Longrightarrow> entry k s (exec op st) = None"
  by (cases op; cases k)
     (auto simp: op_defs entry_cleanupTick update_conv' delete_conv' split: option.splits)

lemma entry_exec_consumed:
  "\<not> issues k s op \<Longrightarrow> entry k s st = Some (e, True) \<Longrightarrow>
   entry k s (exec op st) = None \<or> entry k s (exec op st) = Some (e, True)"
  by (cases op; cases k)
     (auto simp: op_defs entry_cleanupTick update_conv' delete_conv' split: option.splits)

lemma entry_exec_kept:
  "\<not> issues k s op \<Longrightarrow> \<not> evicting k s op \<Longrightarrow> entry k s st = Some (e, True) \<Longrightarrow>
   entry k s (exec op st) = Some (e, True)"
  by (cases op; cases k)
     (auto simp: op_defs update_conv' delete_conv' split: option.splits)

lemma consume_success_entry:
  "consume k now w s st = (Inr tid, st') \<Longrightarrow> \<exists>e. entry k s st' = Some (e, True)"
  by (cases k) (auto simp: op_defs update_conv' split: option.splits if_splits)

lemma consume_consumed:
  "entry k s st = Some (e, True) \<Longrightarrow> consume k now w s st = (Inl AlreadyUsed, st)"
  by (cases k) (auto simp: op_defs)

lemma consume_absent:
  "entry k s st = None \<Longrightarrow> consume k now w s st = (Inl NotFound, st)"
  by (cases k) (auto simp: op_defs)

lemma consume_expired:
  "entry k s st = Some (e, False) \<Longrightarrow> e < now \<Longrightarrow>
   fst (consume k now w s st) = Inl Expired \<and> entry k s (snd (consume k now w s st)) = None"
  by (cases k) (auto simp: op_defs delete_conv')

subsection \<open>Sequences of operations\<close>

lemma entry_run_consumed:
  "\<forall>op \<in> set ops. \<not> issues k s op \<Longrightarrow>
   entry k s st = None \<or> entry k s st = Some (e, True) \<Longrightarrow>
   entry k s (run ops st) = None \<or> entry k s (run ops st) = Some (e, True)"
proof (induction ops arbitrary: st)
  case Nil
  then show ?case by (simp add: run_def)
next
  case (Cons op ops)
  have "entry k s (exec op st) = None \<or> entry k s (exec op st) = Some (e, True)"
    using Cons.prems entry_exec_absent [of k s op st] entry_exec_consumed [of k s op st e]
    by auto
  with Cons.IH [of "exec op st"] Cons.prems(1) show ?case
    by (simp add: run_def)
qed

lemma entry_run_kept:
  "\<forall>op \<in> set ops. \<not> issues k s op \<Longrightarrow> \<forall>op \<in> set ops. \<not> evicting k s op \<Longrightarrow>
   entry k s st = Some (e, True) \<Longrightarrow> entry k s (run ops st) = Some (e, True)"
proof (induction ops arbitrary: st)
  case Nil
  then show ?case by (simp add: run_def)
next
  case (Cons op ops)
  have "entry k s (exec op st) = Some (e, True)"
    using Cons.prems by (simp add: entry_exec_kept)
  with Cons.IH [of "exec op st"] Cons.prems(1,2) show ?case
    by (simp add: run_def)
qed

lemma entry_ticks:
  "entry k s st = Some (e, False) \<Longrightarrow>
   k = ClaimCodeKind \<longrightarrow> (\<forall>(now, w) \<in> set ts. now \<le> e) \<Longrightarrow>
   entry k s (ticks ts st) = Some (e, False)"
proof (induction ts arbitrary: st)
  case Nil
  then show ?case by (simp add: ticks_def)
next
  case (Cons a ts)
  obtain now w where a: "a = (now, w)" by (cases a)
  have "entry k s (cleanupTick now w st) = Some (e, False)"
    using Cons.prems a by (auto simp: entry_cleanupTick)
  with Cons.IH [of "cleanupTick now w st"] Cons.prems(2) a show ?case
    by (simp add: ticks_def)
qed



subsection \<open>The used check comes before the expiry check\<close>



subsection \<open>A consumed credential is never accepted again\<close>

text \<open>
  Claim C2, as the code has it, within one run of the process (the service object is
  not rebuilt from the file). After a consume call on a secret has succeeded, and as
  long as no credential of that kind is issued again under the same secret, every later
  consume call with the secret fails, whatever calls of the service and cleanup ticks
  come between: it answers AlreadyUsed (AlreadyClaimed) while the record is in the
  registry, and NotFound once a cleanup tick (or, for a claim code, \<open>verifyPin\<close> after
  the expiry) has deleted the record. With no such deleting operation in between the
  answer is AlreadyUsed and the call changes nothing.
\<close>

theorem consume_after_success:
  assumes first: "consume k t0 w0 s st = (Inr tid, st1)"
      and fresh: "\<forall>op \<in> set ops. \<not> issues k s op"
  shows "(fst (consume k t w s (run ops st1)) = Inl AlreadyUsed
            \<or> fst (consume k t w s (run ops st1)) = Inl NotFound)
       \<and> ((\<forall>op \<in> set ops. \<not> evicting k s op)
            \<longrightarrow> consume k t w s (run ops st1) = (Inl AlreadyUsed, run ops st1))
       \<and> (entry k s (run ops st1) \<noteq> None
            \<longrightarrow> consume k t w s (run ops st1) = (Inl AlreadyUsed, run ops st1))
       \<and> (entry k s (run ops st1) = None
            \<longrightarrow> consume k t w s (run ops st1) = (Inl NotFound, run ops st1))"
proof -
  from first obtain e where e: "entry k s st1 = Some (e, True)"
    using consume_success_entry by blast
  have cases: "entry k s (run ops st1) = None \<or> entry k s (run ops st1) = Some (e, True)"
    using entry_run_consumed [OF fresh, of st1 e] e by simp
  then have a: "fst (consume k t w s (run ops st1)) = Inl AlreadyUsed
            \<or> fst (consume k t w s (run ops st1)) = Inl NotFound"
    by (auto simp: consume_absent consume_consumed)
  have b: "(\<forall>op \<in> set ops. \<not> evicting k s op)
            \<longrightarrow> consume k t w s (run ops st1) = (Inl AlreadyUsed, run ops st1)"
    using entry_run_kept [OF fresh _ e] consume_consumed by blast
  have c: "entry k s (run ops st1) \<noteq> None
            \<longrightarrow> consume k t w s (run ops st1) = (Inl AlreadyUsed, run ops st1)"
    using cases by (auto simp: consume_consumed)
  have d: "entry k s (run ops st1) = None
            \<longrightarrow> consume k t w s (run ops st1) = (Inl NotFound, run ops st1)"
    by (simp add: consume_absent)
  from a b c d show ?thesis by simp
qed

text \<open>
  The witness: the token of subject 42 is consumed at 1000; a claim-code call and a
  second consume of the token follow; the third consume, long after the expiry, is
  answered AlreadyUsed.
\<close>

theorem consume_after_success_witness:
  "consume LoginTokenKind 1000 Written ''tok'' oneToken
     = (Inr 42, snd (consume LoginTokenKind 1000 Written ''tok'' oneToken))
 \<and> fst (consume LoginTokenKind 400000 Written ''tok''
          (run [ClaimCode 1500 ''hash'', VerifyAndConsumeToken 2000 ''tok'']
               (snd (consume LoginTokenKind 1000 Written ''tok'' oneToken))))
     = Inl AlreadyUsed"
proof -
  let ?st1 = "snd (consume LoginTokenKind 1000 Written ''tok'' oneToken)"
  let ?ops = "[ClaimCode 1500 ''hash'', VerifyAndConsumeToken 2000 ''tok'']"
  have first: "consume LoginTokenKind 1000 Written ''tok'' oneToken = (Inr 42, ?st1)"
    by (simp add: sample_defs op_defs)
  have fresh: "\<forall>op \<in> set ?ops. \<not> issues LoginTokenKind ''tok'' op"
    by simp
  have kept: "\<forall>op \<in> set ?ops. \<not> evicting LoginTokenKind ''tok'' op"
    by simp
  from consume_after_success [OF first fresh, of 400000 Written] kept first
  show ?thesis by simp
qed

text \<open>
  The claim as stated fails once a cleanup tick has run after the expiry: the token
  consumed at 1000 expires at 300000, the tick at 300001 deletes it, and the next
  consume is answered NotFound.
\<close>

theorem consume_after_cleanup_counterexample:
  "fst (verifyAndConsumeToken 1000 ''tok'' oneToken) = Inr 42
 \<and> fst (verifyAndConsumeToken 400000 ''tok''
          (cleanupTick 300001 Written (snd (verifyAndConsumeToken 1000 ''tok'' oneToken))))
     = Inl NotFound"
  by (simp add: sample_defs op_defs)

text \<open>
  Across a restart the property does not hold for a RID: when the write of the claim
  threw and left the file as it was, the file still holds the RID unclaimed, the new
  process loads it, and the RID is claimed a second time.
\<close>

lemma claimed_again_after_restart:
  "fst (claimPendingRID 1000 (Threw (ridStorage oneRid)) ''rid9'' oneRid) = Inr 9
 \<and> fst (claimPendingRID 2000 Written ''rid9''
          (restart (snd (claimPendingRID 1000 (Threw (ridStorage oneRid)) ''rid9'' oneRid))))
     = Inr 9"
  by (simp add: restart_def loadRIDsFromFile_def oneRid_def emptyService_def ridTTL_def
        generatePendingRID_def claimPendingRID_def saveRIDsToFile_def)

subsection \<open>What one cleanup tick removes\<close>

text \<open>
  Claim C4, as the code has it. One tick of the cleanup timer of \<open>TokenService\<close> removes
  from the login tokens exactly the records that are expired and used, from the pending
  RIDs exactly the records that are expired and claimed, and from the claim codes every
  expired record, used or not; one tick of the timer of \<open>RidService\<close> removes exactly
  the request ids that are expired and used. Every other record stays as it is.
\<close>

theorem cleanup_tick_removes:
  "Map_get (tokens (cleanupTick now w st)) k =
     (case Map_get (tokens st) k of None \<Rightarrow> None
      | Some c \<Rightarrow> if now > expiresAt c \<and> used c then None else Some c)
 \<and> Map_get (pendingRIDs (cleanupTick now w st)) k =
     (case Map_get (pendingRIDs st) k of None \<Rightarrow> None
      | Some c \<Rightarrow> if now > expiresAt c \<and> claimed c then None else Some c)
 \<and> Map_get (pendingLogins (cleanupTick now w st)) k =
     (case Map_get (pendingLogins st) k of None \<Rightarrow> None
      | Some c \<Rightarrow> if now > expiresAt c then None else Some c)
 \<and> Map_get (rids (RidService_cleanupTick now rs)) k =
     (case Map_get (rids rs) k of None \<Rightarrow> None
      | Some c \<Rightarrow> if now > expiresAt c \<and> req_used c then None else Some c)"
  by (simp add: cleanupTick_tokens cleanupTick_pendingRIDs cleanupTick_pendingLogins
        RidService_cleanupTick_def sweep_get)

text \<open>
  The claim as stated fails for the claim codes: the code issued at 0 expires at 900000
  and was never redeemed, and the tick at 900001 removes it.
\<close>

theorem cleanup_tick_unused_code_counterexample:
  "entry ClaimCodeKind ''hash'' oneCode = Some (900000, False)
 \<and> Map_get (pendingLogins (cleanupTick 900001 Written oneCode)) ''hash'' = None"
  by (simp add: sample_defs op_defs)

subsection \<open>A late consume call\<close>

text \<open>
  Claim C5, as the code has it. A credential that is in its registry and not consumed:
  after any number of cleanup ticks, a consume call made after its \<open>expiresAt\<close> answers
  Expired and deletes the record. For a login token and a pending RID this holds
  whenever the ticks ran; for a claim code it holds when no tick ran after the expiry
  (a tick after the expiry has deleted the code, and the call answers NotFound).
\<close>

theorem late_consume_is_expired:
  assumes "entry k s st = Some (e, False)"
      and "e < now"
      and "k = ClaimCodeKind \<longrightarrow> (\<forall>(t, w') \<in> set ts. t \<le> e)"
  shows "fst (consume k now w s (ticks ts st)) = Inl Expired
       \<and> entry k s (snd (consume k now w s (ticks ts st))) = None"
  using consume_expired [OF entry_ticks [OF assms(1,3)] assms(2)] .

theorem late_consume_is_expired_witness:
  "fst (consume RidKind 2000000 Written ''rid9''
          (ticks [(500000, Written), (1000000, Written), (1500000, Threw None)] oneRid)) = Inl Expired
 \<and> entry RidKind ''rid9'' (snd (consume RidKind 2000000 Written ''rid9''
          (ticks [(500000, Written), (1000000, Written), (1500000, Threw None)] oneRid))) = None"
proof -
  have present: "entry RidKind ''rid9'' oneRid = Some (900000, False)"
    by (simp add: sample_defs op_defs)
  have late: "(900000::int) < 2000000"
    by simp
  have codes: "RidKind = ClaimCodeKind \<longrightarrow>
      (\<forall>(t, w') \<in> set [(500000, Written), (1000000, Written), (1500000, Threw None :: ridWrite)]. t \<le> (900000::int))"
    by simp
  from late_consume_is_expired [OF present late codes, of Written] show ?thesis .
qed

text \<open>
  The claim as stated fails for the claim codes: the unredeemed code expires at 900000,
  the tick at 900001 deletes it, and the redeem call at 900002 answers NotFound.
\<close>

theorem late_redeem_after_tick_counterexample:
  "entry ClaimCodeKind ''hash'' oneCode = Some (900000, False)
 \<and> fst (claimCode_op 900002 ''hash'' (cleanupTick 900001 Written oneCode)) = Inl NotFound"
  by (simp add: sample_defs op_defs)


subsection \<open>The two phases of a claim code\<close>

lemma unverified_exec:
  "\<not> verifies h op \<Longrightarrow> unverified h st \<Longrightarrow> unverified h (exec op st)"
  by (cases op)
     (auto simp: unverified_def op_defs cleanupTick_pendingLogins sweep_get
                 update_conv' delete_conv' split: option.splits)

lemma unverified_run:
  "\<forall>op \<in> set ops. \<not> verifies h op \<Longrightarrow> unverified h st \<Longrightarrow> unverified h (run ops st)"
proof (induction ops arbitrary: st)
  case Nil
  then show ?case by (simp add: run_def)
next
  case (Cons op ops)
  have "unverified h (exec op st)"
    using Cons.prems by (simp add: unverified_exec)
  with Cons.IH [of "exec op st"] Cons.prems(1) show ?case
    by (simp add: run_def)
qed

lemma unverified_never_redeems:
  "unverified h st \<Longrightarrow> isl (fst (claimCode_op now h st))"
  by (auto simp: unverified_def claimCode_op_def split: option.splits)

lemma unverified_issued:
  "unverified h (snd (generateClaimCode t0 code h tid st))"
  by (simp add: unverified_def generateClaimCode_def update_conv')

text \<open>
  Claim C3, as the code has it. A claim code issued at \<open>t0\<close> for subject \<open>tid\<close> lives
  until \<open>t0 + claimCodeTTL\<close>. Up to that time: a redeem call on the code as issued
  answers NotPinVerified and changes nothing; \<open>verifyPin\<close> returns the display code;
  the redeem call after it returns the subject id; the redeem call after that answers
  AlreadyUsed. Whatever calls of the service and cleanup ticks follow the issuance, as
  long as \<open>verifyPin\<close> is not among them on this hash, a redeem call does not succeed.
  After the expiry, in any state of the service: a redeem call on a record that is in
  the registry, not redeemed and expired answers Expired, whether \<open>pinVerified\<close> is set
  or not (the expiry test comes before the PIN test), and a redeem call on a hash the
  registry no longer holds answers NotFound; the code as issued and the code as
  verified are two states of the first kind.
\<close>

theorem claim_code_two_phase:
  assumes live: "t \<le> t0 + claimCodeTTL" "t1 \<le> t0 + claimCodeTTL" "t2 \<le> t0 + claimCodeTTL"
      and noPin: "\<forall>op \<in> set ops. \<not> verifies h op"
  shows "let issued = snd (generateClaimCode t0 code h tid st);
             verified = snd (verifyPin t1 h issued);
             redeemed = snd (claimCode_op t2 h verified)
         in claimCode_op t h issued = (Inl NotPinVerified, issued)
          \<and> isl (fst (claimCode_op t' h (run ops issued)))
          \<and> fst (verifyPin t1 h issued) = Inr code
          \<and> fst (claimCode_op t2 h verified) = Inr tid
          \<and> claimCode_op later h redeemed = (Inl AlreadyUsed, redeemed)
          \<and> (t0 + claimCodeTTL < late \<longrightarrow>
               fst (claimCode_op late h issued) = Inl Expired
             \<and> fst (claimCode_op late h verified) = Inl Expired)
          \<and> (\<forall>c. Map_get (pendingLogins st') h = Some c \<and> usedAt c = None \<and> expiresAt c < late
                 \<longrightarrow> fst (claimCode_op late h st') = Inl Expired)
          \<and> (Map_get (pendingLogins st') h = None
                 \<longrightarrow> fst (claimCode_op late h st') = Inl NotFound)"
proof -
  define issued where "issued = snd (generateClaimCode t0 code h tid st)"
  define verified where "verified = snd (verifyPin t1 h issued)"
  define redeemed where "redeemed = snd (claimCode_op t2 h verified)"
  have a: "claimCode_op t h issued = (Inl NotPinVerified, issued)"
    using live(1) by (simp add: issued_def op_defs update_conv')
  have b: "isl (fst (claimCode_op t' h (run ops issued)))"
    unfolding issued_def
    by (rule unverified_never_redeems [OF unverified_run [OF noPin unverified_issued]])
  have c: "fst (verifyPin t1 h issued) = Inr code"
    using live(2) by (simp add: issued_def op_defs update_conv')
  have d: "fst (claimCode_op t2 h verified) = Inr tid"
    using live(2,3) by (simp add: verified_def issued_def op_defs update_conv')
  have e: "claimCode_op later h redeemed = (Inl AlreadyUsed, redeemed)"
    using live(2,3) by (simp add: redeemed_def verified_def issued_def op_defs update_conv')
  have f: "t0 + claimCodeTTL < late \<longrightarrow>
               fst (claimCode_op late h issued) = Inl Expired
             \<and> fst (claimCode_op late h verified) = Inl Expired"
    using live(2) by (simp add: verified_def issued_def op_defs update_conv')
  have g: "\<forall>c. Map_get (pendingLogins st') h = Some c \<and> usedAt c = None \<and> expiresAt c < late
                 \<longrightarrow> fst (claimCode_op late h st') = Inl Expired"
    by (simp add: claimCode_op_def)
  have i: "Map_get (pendingLogins st') h = None
                 \<longrightarrow> fst (claimCode_op late h st') = Inl NotFound"
    by (simp add: claimCode_op_def)
  from a b c d e f g i show ?thesis
    unfolding Let_def issued_def verified_def redeemed_def by blast
qed

text \<open>
  The witness is the scenario of the specification: the code AB7K-39 for subject 7.
\<close>

theorem claim_code_two_phase_witness:
  "claimCode_op 500 ''hash'' oneCode = (Inl NotPinVerified, oneCode)
 \<and> fst (verifyPin 1000 ''hash'' oneCode) = Inr ''AB7K-39''
 \<and> fst (claimCode_op 2000 ''hash'' (snd (verifyPin 1000 ''hash'' oneCode))) = Inr 7
 \<and> fst (claimCode_op 3000 ''hash''
          (snd (claimCode_op 2000 ''hash'' (snd (verifyPin 1000 ''hash'' oneCode)))))
     = Inl AlreadyUsed"
proof -
  have live: "(500::int) \<le> 0 + claimCodeTTL" "(1000::int) \<le> 0 + claimCodeTTL"
    "(2000::int) \<le> 0 + claimCodeTTL"
    by (simp_all add: claimCodeTTL_def)
  have noPin: "\<forall>op \<in> set [CleanupTick 100 Written, ClaimCode 200 ''hash'']. \<not> verifies ''hash'' op"
    by simp
  from claim_code_two_phase [OF live noPin, where code = "''AB7K-39''" and tid = 7
      and st = emptyService and later = 3000]
  show ?thesis
    unfolding Let_def oneCode_def by simp
qed

text \<open>
  The claim as stated fails for a code that has expired: the code issued at 0 expires
  at 900000, and a redeem call at 900001, with \<open>verifyPin\<close> never called, answers
  Expired, not NotPinVerified.
\<close>

theorem redeem_expired_unverified_counterexample:
  "fst (claimCode_op 900001 ''hash''
          (snd (generateClaimCode 0 ''AB7K-39'' ''hash'' 7 emptyService))) = Inl Expired"
  by (simp add: sample_defs op_defs)


subsection \<open>The lookup of the latest pending RID\<close>

lemma pick_fold:
  "fold (\<lambda>r latest. if P r then pickLatest latest r else latest) xs init = Some l \<Longrightarrow>
   init = Some l \<or> (l \<in> set xs \<and> P l)"
proof (induction xs arbitrary: init)
  case Nil
  then show ?case by simp
next
  case (Cons x xs)
  from Cons.IH [OF Cons.prems [simplified]] show ?case
    by (auto simp: pickLatest_def split: if_splits option.splits)
qed

lemma getLatestPendingRID_first_sound:
  "getLatestPendingRID_first now tid st = Inr (r, x) \<Longrightarrow>
   \<exists>p \<in> snd ` set (pendingRIDs st).
     rid p = r \<and> telegramId p = tid \<and> \<not> claimed p \<and> now < expiresAt p"
  by (auto simp: getLatestPendingRID_first_def split: option.splits dest!: pick_fold)

lemma getLatestPendingRID_live:
  "getLatestPendingRID now arg st = Inr (r, x) \<Longrightarrow>
   \<exists>p \<in> snd ` set (pendingRIDs st).
     rid p = r \<and> x = Some (telegramId p) \<and> \<not> claimed p \<and> now < expiresAt p"
  by (auto simp: getLatestPendingRID_def getLatestPendingRID_second_def Let_def
           split: option.splits dest!: pick_fold)

text \<open>
  Claim C1. The lookup that mode 2 of \<open>/handshake/claim\<close> calls with a subject id runs
  the second definition, which does not look at the subject: asked for subject 5 while
  the only pending RID belongs to subject 9, it returns that RID and subject 9, and the
  handler claims the RID and hands subject 9 to the identity backend. The first
  definition, the one written for this call, finds nothing for subject 5.
\<close>

theorem getLatestPendingRID_other_subject:
  "getLatestPendingRID 2000 (Some 5) oneRid = Inr (''rid9'', Some 9)
 \<and> getLatestPendingRID_first 2000 5 oneRid = Inl NoPendingRID
 \<and> fst (handshakeClaim 2000 Written None None (Some 5) oneRid) = Inr 9"
  by (simp add: getLatestPendingRID_def getLatestPendingRID_second_def
        getLatestPendingRID_first_def pickLatest_def sample_defs op_defs
        handshakeClaim_def lookup_and_claim_def claimed_subject_def
        truthyString_def truthyNumber_def)

section \<open>Properties of the rate limiter\<close>

lemma middleware_frame:
  "key \<noteq> k \<Longrightarrow> Map_get (snd (middleware opts now key store)) k = Map_get store k"
  by (simp add: middleware_def Let_def update_conv' split: option.splits)

lemma RateLimiter_cleanup_get:
  "Map_get (RateLimiter_cleanup now store) k =
   (case Map_get store k of None \<Rightarrow> None
    | Some e \<Rightarrow> if now \<ge> resetAt e then None else Some e)"
  by (simp add: RateLimiter_cleanup_def sweep_get)

lemma middleware_in_window:
  "Map_get store k = Some e \<Longrightarrow> now < resetAt e \<Longrightarrow>
   middleware opts now k store =
     (if count e + 1 > maxRequests opts then RateLimited (ceilSeconds (resetAt e - now)) else Next,
      Map_set k (e\<lparr>count := count e + 1\<rparr>) store)"
  by (simp add: middleware_def Let_def)

lemma middleware_fresh:
  "Map_get store k = None \<or> (\<exists>e. Map_get store k = Some e \<and> resetAt e \<le> now) \<Longrightarrow>
   middleware opts now k store =
     (Next, Map_set k \<lparr>count = 1, resetAt = now + windowMs opts\<rparr> store)"
  by (auto simp: middleware_def)

lemma serve_in_window:
  assumes "Map_get store k = Some e" and "\<forall>ev \<in> set evs. eventTime ev < resetAt e"
  shows "Map_get (snd (serve opts evs store)) k
           = Some (e\<lparr>count := count e + int (length (filter (isRequest k) evs))\<rparr>)
       \<and> (\<forall>i t. i < length evs \<longrightarrow> evs ! i = Request t k \<longrightarrow>
            fst (serve opts evs store) ! i =
              Some (if count e + rank k evs i > maxRequests opts
                    then RateLimited (ceilSeconds (resetAt e - t)) else Next))"
  using assms
proof (induction evs arbitrary: store e)
  case Nil
  then show ?case by simp
next
  case (Cons ev evs)
  show ?case
  proof (cases ev)
    case (Request now key)
    show ?thesis
    proof (cases "key = k")
      case True
      let ?e' = "e\<lparr>count := count e + 1\<rparr>"
      let ?store' = "Map_set k ?e' store"
      have now: "now < resetAt e" using Cons.prems(2) Request by simp
      have mw: "middleware opts now k store =
        (if count e + 1 > maxRequests opts then RateLimited (ceilSeconds (resetAt e - now)) else Next, ?store')"
        using middleware_in_window [OF Cons.prems(1) now] .
      have get': "Map_get ?store' k = Some ?e'" by (simp add: update_conv')
      have win': "\<forall>ev \<in> set evs. eventTime ev < resetAt ?e'" using Cons.prems(2) by simp
      note IH = Cons.IH [OF get' win']
      have fin: "Map_get (snd (serve opts (ev # evs) store)) k
           = Some (e\<lparr>count := count e + int (length (filter (isRequest k) (ev # evs)))\<rparr>)"
        using IH Request True mw by (simp add: split_def Let_def add.assoc)
      have resp: "fst (serve opts (ev # evs) store) ! i =
              Some (if count e + rank k (ev # evs) i > maxRequests opts
                    then RateLimited (ceilSeconds (resetAt e - t)) else Next)"
        if "i < length (ev # evs)" "(ev # evs) ! i = Request t k" for i t
      proof (cases i)
        case 0
        with that Request True mw show ?thesis
          by (simp add: split_def Let_def rank_def)
      next
        case (Suc j)
        with that have "j < length evs" "evs ! j = Request t k" by simp_all
        with IH have "fst (serve opts evs ?store') ! j =
              Some (if count ?e' + rank k evs j > maxRequests opts
                    then RateLimited (ceilSeconds (resetAt ?e' - t)) else Next)"
          by blast
        with Suc Request True mw show ?thesis
          by (simp add: split_def Let_def rank_def add.assoc)
      qed
      from fin resp show ?thesis by blast
    next
      case False
      let ?store' = "snd (middleware opts now key store)"
      have get': "Map_get ?store' k = Some e"
        using middleware_frame [OF False] Cons.prems(1) by simp
      have win': "\<forall>ev \<in> set evs. eventTime ev < resetAt e" using Cons.prems(2) by simp
      note IH = Cons.IH [OF get' win']
      have fin: "Map_get (snd (serve opts (ev # evs) store)) k
           = Some (e\<lparr>count := count e + int (length (filter (isRequest k) (ev # evs)))\<rparr>)"
        using IH Request False by (simp add: split_def Let_def)
      have resp: "fst (serve opts (ev # evs) store) ! i =
              Some (if count e + rank k (ev # evs) i > maxRequests opts
                    then RateLimited (ceilSeconds (resetAt e - t)) else Next)"
        if "i < length (ev # evs)" "(ev # evs) ! i = Request t k" for i t
      proof (cases i)
        case 0
        with that Request False show ?thesis by simp
      next
        case (Suc j)
        with that have "j < length evs" "evs ! j = Request t k" by simp_all
        with IH have "fst (serve opts evs ?store') ! j =
              Some (if count e + rank k evs j > maxRequests opts
                    then RateLimited (ceilSeconds (resetAt e - t)) else Next)"
          by blast
        with Suc Request False show ?thesis
          by (simp add: split_def Let_def rank_def)
      qed
      from fin resp show ?thesis by blast
    qed
  next
    case (CleanupRun now)
    let ?store' = "RateLimiter_cleanup now store"
    have get': "Map_get ?store' k = Some e"
      using Cons.prems CleanupRun by (simp add: RateLimiter_cleanup_get)
    have win': "\<forall>ev \<in> set evs. eventTime ev < resetAt e" using Cons.prems(2) by simp
    note IH = Cons.IH [OF get' win']
    have fin: "Map_get (snd (serve opts (ev # evs) store)) k
           = Some (e\<lparr>count := count e + int (length (filter (isRequest k) (ev # evs)))\<rparr>)"
      using IH CleanupRun by (simp add: split_def Let_def)
    have resp: "fst (serve opts (ev # evs) store) ! i =
              Some (if count e + rank k (ev # evs) i > maxRequests opts
                    then RateLimited (ceilSeconds (resetAt e - t)) else Next)"
      if "i < length (ev # evs)" "(ev # evs) ! i = Request t k" for i t
    proof (cases i)
      case 0
      with that CleanupRun show ?thesis by simp
    next
      case (Suc j)
      with that have "j < length evs" "evs ! j = Request t k" by simp_all
      with IH have "fst (serve opts evs ?store') ! j =
              Some (if count e + rank k evs j > maxRequests opts
                    then RateLimited (ceilSeconds (resetAt e - t)) else Next)"
        by blast
      with Suc CleanupRun show ?thesis
        by (simp add: split_def Let_def rank_def)
    qed
    from fin resp show ?thesis by blast
  qed
qed



lemma serve_first_request:
  assumes fresh: "Map_get store k = None \<or> (\<exists>e. Map_get store k = Some e \<and> resetAt e \<le> t0)"
  shows "serve opts (Request t0 k # evs) store =
           (Some Next # fst (serve opts evs
                (Map_set k \<lparr>count = 1, resetAt = t0 + windowMs opts\<rparr> store)),
            snd (serve opts evs (Map_set k \<lparr>count = 1, resetAt = t0 + windowMs opts\<rparr> store)))"
  by (simp add: middleware_fresh [OF fresh] split_def Let_def)

lemma ceilSeconds_positive: "0 < ms \<Longrightarrow> 1 \<le> ceilSeconds ms"
  unfolding ceilSeconds_def by linarith

text \<open>
  Claim C6, as the code has it. The middleware increments the stored count of a key on
  every request it gets inside a window, before it compares the count with
  \<open>maxRequests\<close>, for a denied request as for an admitted one. After the request that
  opens a window and any further events inside it, the stored count is the number of
  requests made with the key in the window, whatever \<open>maxRequests\<close> is: it is bounded
  by the number of requests, not by the maximum.
\<close>

theorem count_is_number_of_requests:
  assumes fresh: "Map_get store k = None \<or> (\<exists>e. Map_get store k = Some e \<and> resetAt e \<le> t0)"
      and window: "\<forall>ev \<in> set evs. eventTime ev < t0 + windowMs opts"
  shows "Map_get (snd (serve opts (Request t0 k # evs) store)) k =
           Some \<lparr>count = 1 + int (length (filter (isRequest k) evs)),
                 resetAt = t0 + windowMs opts\<rparr>"
proof -
  let ?e = "\<lparr>count = 1, resetAt = t0 + windowMs opts\<rparr>"
  let ?store' = "Map_set k ?e store"
  have get': "Map_get ?store' k = Some ?e"
    by (simp add: update_conv')
  have win': "\<forall>ev \<in> set evs. eventTime ev < resetAt ?e"
    using window by simp
  from serve_in_window [OF get' win', of opts] show ?thesis
    by (simp add: serve_first_request [OF fresh] del: serve.simps)
qed

theorem count_is_number_of_requests_witness:
  "Map_get (snd (serve strictOptions
      [Request 0 ''ip'', Request 1000 ''ip'', CleanupRun 2000, Request 3000 ''other'',
       Request 4000 ''ip'', Request 5000 ''ip''] [])) ''ip''
     = Some \<lparr>count = 4, resetAt = 60000\<rparr>"
proof -
  let ?evs = "[Request 1000 ''ip'', CleanupRun 2000, Request 3000 ''other'',
       Request 4000 ''ip'', Request 5000 ''ip'']"
  have fresh: "Map_get ([] :: RateLimitEntry jsmap) ''ip'' = None
      \<or> (\<exists>e. Map_get ([] :: RateLimitEntry jsmap) ''ip'' = Some e \<and> resetAt e \<le> 0)"
    by simp
  have window: "\<forall>ev \<in> set ?evs. eventTime ev < 0 + windowMs strictOptions"
    by (simp add: strictOptions_def)
  from count_is_number_of_requests [OF fresh window] show ?thesis
    by (simp add: strictOptions_def)
qed

text \<open>
  The claim as stated fails: with \<open>maxRequests = 2\<close>, the third, fourth and fifth request
  of one window are denied, and each of them raises the stored count, to 5.
\<close>

theorem denied_request_counts_counterexample:
  "fst (serve strictOptions
      [Request 0 ''ip'', Request 1 ''ip'', Request 2 ''ip'', Request 3 ''ip'',
       Request 4 ''ip''] [])
     = [Some Next, Some Next, Some (RateLimited 60), Some (RateLimited 60),
        Some (RateLimited 60)]
 \<and> Map_get (snd (serve strictOptions
      [Request 0 ''ip'', Request 1 ''ip'', Request 2 ''ip'', Request 3 ''ip'',
       Request 4 ''ip''] [])) ''ip''
     = Some \<lparr>count = 5, resetAt = 60000\<rparr>"
  by (simp add: strictOptions_def middleware_def ceilSeconds_def Let_def)

text \<open>
  Claim C7, as the code has it. A limiter with \<open>maxRequests\<close> of at least 1 (the two
  limiters of the server have 5 and 10). A request with the key \<open>k\<close> at \<open>t0\<close> that finds
  no entry, or an entry whose \<open>resetAt\<close> has passed, opens a window that lasts until
  \<open>t0 + windowMs\<close>. Among the events before the end of the window (requests with any
  key, runs of the cleanup timer), the \<open>n\<close>-th request with key \<open>k\<close> is admitted when
  \<open>n \<le> maxRequests\<close> and is otherwise answered \<open>rate_limited\<close> with \<open>retry_after\<close>,
  the seconds left in the window rounded up, which is at least 1. The next request with
  the key at or after \<open>t0 + windowMs\<close> is admitted and stores the count 1 with a new
  window.
\<close>

theorem window_admits_exactly_max:
  assumes pos: "1 \<le> maxRequests opts"
      and fresh: "Map_get store k = None \<or> (\<exists>e. Map_get store k = Some e \<and> resetAt e \<le> t0)"
      and window: "\<forall>ev \<in> set evs. eventTime ev < t0 + windowMs opts"
  shows "(\<forall>i t. i < length (Request t0 k # evs) \<longrightarrow> (Request t0 k # evs) ! i = Request t k \<longrightarrow>
            fst (serve opts (Request t0 k # evs) store) ! i =
              Some (if rank k (Request t0 k # evs) i \<le> maxRequests opts then Next
                    else RateLimited (ceilSeconds (t0 + windowMs opts - t))))
       \<and> (\<forall>ev \<in> set evs. 1 \<le> ceilSeconds (t0 + windowMs opts - eventTime ev))
       \<and> (t0 + windowMs opts \<le> t' \<longrightarrow>
            middleware opts t' k (snd (serve opts (Request t0 k # evs) store)) =
              (Next, Map_set k \<lparr>count = 1, resetAt = t' + windowMs opts\<rparr>
                       (snd (serve opts (Request t0 k # evs) store))))"
proof -
  let ?e = "\<lparr>count = 1, resetAt = t0 + windowMs opts\<rparr>"
  let ?store' = "Map_set k ?e store"
  let ?all = "Request t0 k # evs"
  have get': "Map_get ?store' k = Some ?e"
    by (simp add: update_conv')
  have win': "\<forall>ev \<in> set evs. eventTime ev < resetAt ?e"
    using window by simp
  note rest = serve_in_window [OF get' win', of opts]
  have resp: "fst (serve opts ?all store) ! i =
              Some (if rank k ?all i \<le> maxRequests opts then Next
                    else RateLimited (ceilSeconds (t0 + windowMs opts - t)))"
    if "i < length ?all" "?all ! i = Request t k" for i t
  proof (cases i)
    case 0
    with pos show ?thesis
      by (simp add: serve_first_request [OF fresh] rank_def del: serve.simps)
  next
    case (Suc j)
    with that have "j < length evs" "evs ! j = Request t k" by simp_all
    with rest have "fst (serve opts evs ?store') ! j =
        Some (if count ?e + rank k evs j > maxRequests opts
              then RateLimited (ceilSeconds (resetAt ?e - t)) else Next)"
      by blast
    moreover have "rank k ?all (Suc j) = 1 + rank k evs j"
      by (simp add: rank_def)
    ultimately show ?thesis
      using Suc by (simp add: serve_first_request [OF fresh] del: serve.simps)
  qed
  have retry: "\<forall>ev \<in> set evs. 1 \<le> ceilSeconds (t0 + windowMs opts - eventTime ev)"
    using window by (simp add: ceilSeconds_positive)
  have fin: "Map_get (snd (serve opts ?all store)) k =
      Some (?e\<lparr>count := count ?e + int (length (filter (isRequest k) evs))\<rparr>)"
    using rest by (simp add: serve_first_request [OF fresh] del: serve.simps)
  have again: "middleware opts t' k (snd (serve opts ?all store)) =
      (Next, Map_set k \<lparr>count = 1, resetAt = t' + windowMs opts\<rparr> (snd (serve opts ?all store)))"
    if "t0 + windowMs opts \<le> t'"
    by (rule middleware_fresh) (use fin that in simp)
  from resp retry again show ?thesis by blast
qed

text \<open>
  The witness: a limiter with \<open>maxRequests = 2\<close> and a window of one minute. The first
  two requests of the key are admitted, the third is denied with 56 seconds to wait,
  and a request after the minute is admitted again.
\<close>

theorem window_admits_exactly_max_witness:
  "fst (serve strictOptions
      [Request 0 ''ip'', Request 1000 ''other'', Request 2000 ''ip'', CleanupRun 3000,
       Request 4000 ''ip''] []) ! 0 = Some Next
 \<and> fst (serve strictOptions
      [Request 0 ''ip'', Request 1000 ''other'', Request 2000 ''ip'', CleanupRun 3000,
       Request 4000 ''ip''] []) ! 2 = Some Next
 \<and> fst (serve strictOptions
      [Request 0 ''ip'', Request 1000 ''other'', Request 2000 ''ip'', CleanupRun 3000,
       Request 4000 ''ip''] []) ! 4 = Some (RateLimited 56)
 \<and> fst (middleware strictOptions 60000 ''ip'' (snd (serve strictOptions
      [Request 0 ''ip'', Request 1000 ''other'', Request 2000 ''ip'', CleanupRun 3000,
       Request 4000 ''ip''] []))) = Next"
proof -
  let ?evs = "[Request 1000 ''other'', Request 2000 ''ip'', CleanupRun 3000,
       Request 4000 ''ip'']"
  have pos: "1 \<le> maxRequests strictOptions"
    by (simp add: strictOptions_def)
  have fresh: "Map_get ([] :: RateLimitEntry jsmap) ''ip'' = None
      \<or> (\<exists>e. Map_get ([] :: RateLimitEntry jsmap) ''ip'' = Some e \<and> resetAt e \<le> 0)"
    by simp
  have window: "\<forall>ev \<in> set ?evs. eventTime ev < 0 + windowMs strictOptions"
    by (simp add: strictOptions_def)
  note w = window_admits_exactly_max [OF pos fresh window, of 60000]
  from w have r0: "fst (serve strictOptions (Request 0 ''ip'' # ?evs) []) ! 0 =
      Some (if rank ''ip'' (Request 0 ''ip'' # ?evs) 0 \<le> maxRequests strictOptions then Next
            else RateLimited (ceilSeconds (0 + windowMs strictOptions - 0)))"
    by simp
  from w have r2: "fst (serve strictOptions (Request 0 ''ip'' # ?evs) []) ! 2 =
      Some (if rank ''ip'' (Request 0 ''ip'' # ?evs) 2 \<le> maxRequests strictOptions then Next
            else RateLimited (ceilSeconds (0 + windowMs strictOptions - 2000)))"
    by simp
  from w have r4: "fst (serve strictOptions (Request 0 ''ip'' # ?evs) []) ! 4 =
      Some (if rank ''ip'' (Request 0 ''ip'' # ?evs) 4 \<le> maxRequests strictOptions then Next
            else RateLimited (ceilSeconds (0 + windowMs strictOptions - 4000)))"
    by simp
  from w have again: "fst (middleware strictOptions 60000 ''ip''
      (snd (serve strictOptions (Request 0 ''ip'' # ?evs) []))) = Next"
    by (simp add: strictOptions_def)
  have ranks: "rank ''ip'' (Request 0 ''ip'' # ?evs) 0 = 1"
    "rank ''ip'' (Request 0 ''ip'' # ?evs) 2 = 2"
    "rank ''ip'' (Request 0 ''ip'' # ?evs) 4 = 3"
    by (simp_all add: rank_def)
  have secs: "ceilSeconds (0 + windowMs strictOptions - 4000) = 56"
    by (simp add: strictOptions_def ceilSeconds_def)
  from r0 r2 r4 again ranks secs show ?thesis
    by (simp add: strictOptions_def)
qed


text \<open>
  The claim as stated fails for a limiter with \<open>maxRequests = 0\<close>: the request that
  opens a window is admitted without a limit test, though it is the
  \<open>(maxRequests + 1)\<close>-th of its window.
\<close>

theorem first_request_admitted_counterexample:
  "maxRequests zeroOptions = 0
 \<and> serve zeroOptions [Request 0 ''ip''] []
     = ([Some Next], [(''ip'', \<lparr>count = 1, resetAt = 60000\<rparr>)])"
  by (simp add: zeroOptions_def middleware_def)

section \<open>Persistence of the RIDs\<close>

lemma generatePendingRID_saved:
  "ridStorage (snd (generatePendingRID now Written r tid cip st))
     = Some (pendingRIDs (snd (generatePendingRID now Written r tid cip st)))
 \<and> Map_get (pendingRIDs (snd (generatePendingRID now Written r tid cip st))) r
     = Some \<lparr>telegramId = tid, createdAt = now, expiresAt = now + ridTTL,
             rid = r, claimed = False, claimedAt = None, clientIp = cip\<rparr>"
  by (simp add: generatePendingRID_def saveRIDsToFile_def update_conv')

lemma claimPendingRID_saved:
  "fst (claimPendingRID now Written r st) = Inr tid \<Longrightarrow>
   ridStorage (snd (claimPendingRID now Written r st))
     = Some (pendingRIDs (snd (claimPendingRID now Written r st)))
 \<and> (\<exists>c. Map_get (pendingRIDs (snd (claimPendingRID now Written r st))) r = Some c \<and> claimed c)"
  by (auto simp: claimPendingRID_def saveRIDsToFile_def update_conv'
           split: option.splits if_splits)

lemma write_failure_swallowed:
  "generatePendingRID now (Threw left) r tid cip st
     = (r, (snd (generatePendingRID now Written r tid cip st))\<lparr>ridStorage := left\<rparr>)
 \<and> fst (claimPendingRID now (Threw left) r st) = fst (claimPendingRID now Written r st)
 \<and> pendingRIDs (snd (claimPendingRID now (Threw left) r st))
     = pendingRIDs (snd (claimPendingRID now Written r st))
 \<and> (fst (claimPendingRID now (Threw left) r st) = Inr tid' \<longrightarrow>
      ridStorage (snd (claimPendingRID now (Threw left) r st)) = left)"
  by (auto simp: generatePendingRID_def claimPendingRID_def saveRIDsToFile_def
           split: option.splits)

lemma request_id_not_saved:
  "snapshot (snd (issueRequestId now reqIp r tg i c srv)) = snapshot srv
 \<and> snapshot (snd (consumeRequestId now r' device srv)) = snapshot srv"
  by (simp add: snapshot_def issueRequestId_def consumeRequestId_def split_def Let_def
           split: option.splits sum.splits response.splits)

text \<open>
  Claim C8, as the code has it. The pending RIDs of \<open>TokenService\<close>: when the file write
  succeeds, \<open>generatePendingRID\<close> returns with the snapshot equal to the registry, the
  new record in it, and a successful \<open>claimPendingRID\<close> returns with the snapshot equal
  to the registry, the record marked claimed in it. A write that throws is caught: the
  call returns the same result and changes the registry the same way, and the file
  holds what the failed write left, whatever that is. The request ids of \<open>RidService\<close>,
  which the boundary operations "Issue request id" and "Consume request id" create and
  consume, are written to no file: both operations leave the snapshot as it was.
\<close>

theorem rid_changes_persisted_by_token_service_only:
  "ridStorage (snd (generatePendingRID now Written r tid cip st))
     = Some (pendingRIDs (snd (generatePendingRID now Written r tid cip st)))
 \<and> Map_get (pendingRIDs (snd (generatePendingRID now Written r tid cip st))) r
     = Some \<lparr>telegramId = tid, createdAt = now, expiresAt = now + ridTTL,
             rid = r, claimed = False, claimedAt = None, clientIp = cip\<rparr>
 \<and> (fst (claimPendingRID now Written r st) = Inr tid' \<longrightarrow>
      ridStorage (snd (claimPendingRID now Written r st))
        = Some (pendingRIDs (snd (claimPendingRID now Written r st)))
    \<and> (\<exists>c. Map_get (pendingRIDs (snd (claimPendingRID now Written r st))) r = Some c \<and> claimed c))
 \<and> generatePendingRID now (Threw left) r tid cip st
     = (r, (snd (generatePendingRID now Written r tid cip st))\<lparr>ridStorage := left\<rparr>)
 \<and> fst (claimPendingRID now (Threw left) r st) = fst (claimPendingRID now Written r st)
 \<and> pendingRIDs (snd (claimPendingRID now (Threw left) r st))
     = pendingRIDs (snd (claimPendingRID now Written r st))
 \<and> (fst (claimPendingRID now (Threw left) r st) = Inr tid' \<longrightarrow>
      ridStorage (snd (claimPendingRID now (Threw left) r st)) = left)
 \<and> snapshot (snd (issueRequestId now reqIp r tg i c srv)) = snapshot srv
 \<and> snapshot (snd (consumeRequestId now r' device srv)) = snapshot srv"
  using generatePendingRID_saved [of now r tid cip st]
    claimPendingRID_saved [where now = now and r = r and st = st and tid = tid']
    write_failure_swallowed [where now = now and left = left and r = r and tid = tid
      and cip = cip and st = st and tid' = tid']
    request_id_not_saved [where now = now and reqIp = reqIp and r = r and tg = tg and i = i
      and c = c and srv = srv and r' = r' and device = device]
  by blast

text \<open>
  The witness: the RID of subject 9 is issued at 0 and claimed at 1000; after the claim
  the file holds the registry, with the record claimed.
\<close>

theorem rid_changes_persisted_by_token_service_only_witness:
  "fst (claimPendingRID 1000 Written ''rid9'' oneRid) = Inr 9
 \<and> ridStorage (snd (claimPendingRID 1000 Written ''rid9'' oneRid))
     = Some (pendingRIDs (snd (claimPendingRID 1000 Written ''rid9'' oneRid)))
 \<and> (\<exists>c. Map_get (pendingRIDs (snd (claimPendingRID 1000 Written ''rid9'' oneRid))) ''rid9'' = Some c
        \<and> claimed c)"
proof -
  have ok: "fst (claimPendingRID 1000 Written ''rid9'' oneRid) = Inr 9"
    by (simp add: sample_defs op_defs)
  from rid_changes_persisted_by_token_service_only
      [where now = 1000 and r = "''rid9''" and st = oneRid and tid' = 9] ok
  show ?thesis by blast
qed

text \<open>
  The claim as stated fails at the boundary operation "Issue request id": on a server
  that has written no snapshot, the operation returns the new RID, the registry of
  \<open>RidService\<close> holds it, and there is still no snapshot.
\<close>

theorem issue_request_id_not_persisted_counterexample:
  "fst (issueRequestId 0 (Some ''10.0.0.1'') ''r1'' (Some 9) (Some ''open_app'') None
          emptyServer) = Inr ''r1''
 \<and> Map_get (rids (ridService
        (snd (issueRequestId 0 (Some ''10.0.0.1'') ''r1'' (Some 9) (Some ''open_app'') None
                emptyServer)))) ''r1''
     = Some \<lparr>telegramId = 9, createdAt = 0, expiresAt = 900000,
             req_rid = ''r1'', req_used = False, intent = ''open_app'', req_context = None\<rparr>
 \<and> snapshot (snd (issueRequestId 0 (Some ''10.0.0.1'') ''r1'' (Some 9) (Some ''open_app'') None
                     emptyServer))
     = None"
  by (simp add: issueRequestId_def generateRid_def emptyServer_def emptyService_def
        snapshot_def ridTTL_def middleware_def ipKey_def sessionOptions_def)

section \<open>Properties of the audit log\<close>

lemma slice_Nil: "slice start [] = []"
  by (simp add: slice_def)

lemma flush_empties: "inMemoryLogs (flush Written st) = []"
  by (simp add: flush_def)

lemma flush_failed_keeps: "inMemoryLogs (flush (Threw left) st) = inMemoryLogs st"
  by (simp add: flush_def)

lemma flush_appends: "logFile (flush Written st) = logFile st @ inMemoryLogs st"
  by (simp add: flush_def)

text \<open>
  Claim C10, as the code has it. A flush whose append to the log file returns leaves
  the buffer empty: the flush inside \<open>log\<close> for an action among \<open>auth_verified\<close>,
  \<open>auth_failed\<close>, \<open>invalid_signature\<close> and \<open>rate_limited\<close>, and the flush of the periodic
  timer. Right after such a \<open>log\<close> call \<open>getRecent\<close> and \<open>getForUser\<close> return the empty
  list for every limit and user, so nothing logged before the flush can be read back;
  what was in the buffer, the new entry last, is at the end of the file. A flush whose
  append throws leaves the buffer as it was: after such a \<open>log\<close> call the buffer holds
  what it held before and the new entry (less the oldest entry past the ceiling).
\<close>

theorem flush_empties_buffer:
  assumes "action entry' \<in> set securityCritical"
  shows "inMemoryLogs (log now Written entry' st) = []
       \<and> getRecent limit (log now Written entry' st) = []
       \<and> getForUser tid limit' (log now Written entry' st) = []
       \<and> (length (inMemoryLogs st) < maxInMemory \<longrightarrow>
            logFile (log now Written entry' st)
              = logFile st @ inMemoryLogs st @ [entry'\<lparr>timestamp := now\<rparr>])
       \<and> inMemoryLogs (periodicFlush Written st) = []
       \<and> inMemoryLogs (log now (Threw left) entry' st)
            = (if length (inMemoryLogs st) < maxInMemory
               then inMemoryLogs st @ [entry'\<lparr>timestamp := now\<rparr>]
               else tl (inMemoryLogs st @ [entry'\<lparr>timestamp := now\<rparr>]))
       \<and> inMemoryLogs (periodicFlush (Threw left) st) = inMemoryLogs st"
  using assms
  by (simp add: log_def Let_def flush_def periodicFlush_def getRecent_def getForUser_def
        slice_Nil)

text \<open>
  The witness: two entries for user 7 are logged, far below the ceiling of 1000; the
  second has the action \<open>auth_failed\<close>, and after it nothing can be read back.
\<close>

theorem flush_empties_buffer_witness:
  "getRecent 100 loggedOnce = [(sampleEntry ''request_id_generated'')\<lparr>timestamp := 1000\<rparr>]
 \<and> getRecent 100 (log 2000 Written (sampleEntry ''auth_failed'') loggedOnce) = []
 \<and> getForUser 7 50 (log 2000 Written (sampleEntry ''auth_failed'') loggedOnce) = []"
proof -
  have critical: "action (sampleEntry ''auth_failed'') \<in> set securityCritical"
    by (simp add: sampleEntry_def securityCritical_def)
  have before: "getRecent 100 loggedOnce
      = [(sampleEntry ''request_id_generated'')\<lparr>timestamp := 1000\<rparr>]"
    by (simp add: loggedOnce_def log_def Let_def sampleEntry_def securityCritical_def
          maxInMemory_def getRecent_def slice_def)
  from flush_empties_buffer [OF critical, where now = 2000 and st = loggedOnce
      and limit = 100 and tid = 7 and limit' = 50] before
  show ?thesis by simp
qed

text \<open>
  The claim as stated fails when the append throws: the same two entries, the second
  with the action \<open>auth_failed\<close>, and a flush that fails; right after the \<open>log\<close> call
  both entries are read back.
\<close>

theorem failed_flush_keeps_buffer_counterexample:
  "getRecent 100 (log 2000 (Threw []) (sampleEntry ''auth_failed'') loggedOnce)
     = [(sampleEntry ''request_id_generated'')\<lparr>timestamp := 1000\<rparr>,
        (sampleEntry ''auth_failed'')\<lparr>timestamp := 2000\<rparr>]
 \<and> getForUser 7 50 (log 2000 (Threw []) (sampleEntry ''auth_failed'') loggedOnce)
     = [(sampleEntry ''request_id_generated'')\<lparr>timestamp := 1000\<rparr>,
        (sampleEntry ''auth_failed'')\<lparr>timestamp := 2000\<rparr>]"
  by (simp add: loggedOnce_def log_def Let_def flush_def sampleEntry_def securityCritical_def
        maxInMemory_def getRecent_def getForUser_def slice_def)

end
